theory Spec2Isabelle
  imports Main "HOL-Library.Char_ord" "HOL-Library.List_Lexorder" "HOL-Library.Signed_Division"
begin

section \<open>The Go runtime, as far as package garray uses it\<close>

text \<open>
  The containers of \<^verbatim>\<open>g/container/garray\<close> are Go structs around a slice. A Go
  slice is modelled as a HOL list, Go's \<^verbatim>\<open>int\<close> (64 bits on the platforms the library
  targets) as \<^typ>\<open>int\<close> with the wrap-around written out at the operations whose
  operands the caller chooses, and a run-time panic as the left injection of a sum.
  The lock \<^verbatim>\<open>mu\<close> is represented only by the answer of \<^verbatim>\<open>mu.IsSafe()\<close>, which decides
  whether a read operation copies. Memory is unbounded: \<^verbatim>\<open>make\<close> fails on a negative
  length only.
\<close>

datatype panic = IndexOutOfRange | SliceBoundsOutOfRange | MakesliceLenOutOfRange


text \<open>\<^verbatim>\<open>a[i]\<close>: panics unless \<open>0 \<le> i < len(a)\<close>.\<close>

definition index :: "'a list \<Rightarrow> int \<Rightarrow> panic + 'a" where
  "index a i = (if 0 \<le> i \<and> i < int (length a) then Inr (a ! nat i) else Inl IndexOutOfRange)"

text \<open>\<^verbatim>\<open>a[i] = v\<close>: panics unless \<open>0 \<le> i < len(a)\<close>.\<close>

definition assign :: "'a list \<Rightarrow> int \<Rightarrow> 'a \<Rightarrow> panic + 'a list" where
  "assign a i v =
     (if 0 \<le> i \<and> i < int (length a) then Inr (a[nat i := v]) else Inl IndexOutOfRange)"

text \<open>
  \<^verbatim>\<open>a[lo:hi]\<close>. Go checks \<open>hi\<close> against the capacity; every slice expression of the
  modelled functions whose bounds are ordered and non-negative stays within the length,
  so the length is the bound here.
\<close>

definition slice :: "'a list \<Rightarrow> int \<Rightarrow> int \<Rightarrow> panic + 'a list" where
  "slice a lo hi =
     (if 0 \<le> lo \<and> lo \<le> hi \<and> hi \<le> int (length a)
      then Inr (take (nat (hi - lo)) (drop (nat lo) a))
      else Inl SliceBoundsOutOfRange)"

text \<open>\<^verbatim>\<open>a[lo:]\<close> is \<^verbatim>\<open>a[lo:len(a)]\<close>.\<close>

definition slice_from :: "'a list \<Rightarrow> int \<Rightarrow> panic + 'a list" where
  "slice_from a lo = slice a lo (int (length a))"

text \<open>\<^verbatim>\<open>make([]T, n)\<close>: \<open>n\<close> copies of the zero value \<open>z\<close> of \<open>T\<close>.\<close>

definition make_slice :: "'a \<Rightarrow> int \<Rightarrow> panic + 'a list" where
  "make_slice z n = (if n < 0 then Inl MakesliceLenOutOfRange else Inr (replicate (nat n) z))"

text \<open>\<^verbatim>\<open>copy(dst, src)\<close> overwrites the first \<open>min(len(dst), len(src))\<close> elements.\<close>

definition copy :: "'a list \<Rightarrow> 'a list \<Rightarrow> 'a list" where
  "copy dst src = take (length dst) src @ drop (length src) dst"

text \<open>
  \<^verbatim>\<open>strings.Compare\<close> of the standard library: equality first, then the byte-wise
  lexicographic order of Go's \<^verbatim>\<open><\<close> on strings, which is the order of \<^typ>\<open>string\<close>
  here (bytes by their code, lists lexicographically).
\<close>

definition strings_Compare :: "string \<Rightarrow> string \<Rightarrow> int" where
  "strings_Compare a b = (if a = b then 0 else if a < b then -1 else 1)"

section \<open>The containers\<close>

text \<open>
  \<^verbatim>\<open>IntArray\<close> holds the lock and the slice; \<^verbatim>\<open>SortedStringArray\<close> adds the uniqueness
  flag and the comparator. The common part is one record, so that \<open>array\<close> and \<open>safe\<close>
  name the same field of both.
\<close>

record 'a garray =
  array :: "'a list"
  safe :: bool

type_synonym IntArray = "int garray"

record SortedStringArray = "string garray" +
  unique :: bool
  comparator :: "string \<Rightarrow> string \<Rightarrow> int"

text \<open>
  The constructors. A variadic parameter is the list of the arguments passed for it.

  Modelled from the spec: \<^verbatim>\<open>rwmutex.New\<close> of package \<^verbatim>\<open>g/internal/rwmutex\<close>, which
  package garray imports; the container is safe unless the first optional argument asks
  for the unsafe mode.
\<close>

definition rwmutex_New :: "bool list \<Rightarrow> bool" where
  "rwmutex_New unsafe = (case unsafe of [] \<Rightarrow> True | u # _ \<Rightarrow> \<not> u)"

definition NewIntArrayFrom :: "int list \<Rightarrow> bool list \<Rightarrow> IntArray" where
  "NewIntArrayFrom a unsafe = \<lparr>array = a, safe = rwmutex_New unsafe\<rparr>"

definition NewSortedStringArraySize :: "int \<Rightarrow> bool list \<Rightarrow> SortedStringArray" where
  "NewSortedStringArraySize cap unsafe =
     \<lparr>array = [], safe = rwmutex_New unsafe, unique = False,
      comparator = (\<lambda>v1 v2. strings_Compare v1 v2)\<rparr>"

definition NewSortedStringArray :: "bool list \<Rightarrow> SortedStringArray" where
  "NewSortedStringArray unsafe = NewSortedStringArraySize 0 unsafe"

definition NewSortedStringArrayFrom :: "string list \<Rightarrow> bool list \<Rightarrow> SortedStringArray" where
  "NewSortedStringArrayFrom a unsafe = (NewSortedStringArraySize 0 unsafe)\<lparr>array := sort a\<rparr>"

section \<open>SortedStringArray\<close>

subsection \<open>binSearch\<close>

function binSearch_loop ::
  "(string \<Rightarrow> string \<Rightarrow> int) \<Rightarrow> string list \<Rightarrow> string \<Rightarrow> int \<Rightarrow> int \<Rightarrow> int \<Rightarrow> int
     \<Rightarrow> panic + (int \<times> int)" where
  "binSearch_loop c a v mn mx mid cmp =
     (if mn \<le> mx then
        (case index a ((mn + mx) sdiv 2) of
           Inl e \<Rightarrow> Inl e
         | Inr x \<Rightarrow>
             if c v x < 0 then binSearch_loop c a v mn ((mn + mx) sdiv 2 - 1) ((mn + mx) sdiv 2) (c v x)
             else if c v x > 0 then binSearch_loop c a v ((mn + mx) sdiv 2 + 1) mx ((mn + mx) sdiv 2) (c v x)
             else Inr ((mn + mx) sdiv 2, c v x))
      else Inr (mid, cmp))"
  by pat_completeness auto
termination
  by (relation "measure (\<lambda>(c, a, v, mn, mx, mid, cmp). nat (mx - mn + 1))")
     (auto simp: index_def signed_divide_int_def sgn_if split: if_splits)

declare binSearch_loop.simps [simp del]

definition binSearch :: "SortedStringArray \<Rightarrow> string \<Rightarrow> bool \<Rightarrow> panic + (int \<times> int)" where
  "binSearch a v lock =
     (if length (array a) = 0 then Inr (-1, -2)
      else binSearch_loop (comparator a) (array a) v 0 (int (length (array a)) - 1) 0 (-2))"

subsection \<open>Add\<close>

text \<open>One iteration of the loop over \<^verbatim>\<open>values\<close>.\<close>

definition Add_step :: "SortedStringArray \<Rightarrow> string \<Rightarrow> panic + SortedStringArray" where
  "Add_step a v =
     (case binSearch a v False of
        Inl e \<Rightarrow> Inl e
      | Inr (idx, cmp) \<Rightarrow>
          if unique a \<and> cmp = 0 then Inr a
          else if idx < 0 then Inr (a\<lparr>array := array a @ [v]\<rparr>)
          else
            (case slice_from (array a) (if cmp > 0 then idx + 1 else idx) of
               Inl e \<Rightarrow> Inl e
             | Inr rear \<Rightarrow>
                 (case slice (array a) 0 (if cmp > 0 then idx + 1 else idx) of
                    Inl e \<Rightarrow> Inl e
                  | Inr front \<Rightarrow> Inr (a\<lparr>array := (front @ [v]) @ rear\<rparr>))))"

fun Add_loop :: "SortedStringArray \<Rightarrow> string list \<Rightarrow> panic + SortedStringArray" where
  "Add_loop a [] = Inr a"
| "Add_loop a (v # vs) = (case Add_step a v of Inl e \<Rightarrow> Inl e | Inr a' \<Rightarrow> Add_loop a' vs)"

definition Add :: "SortedStringArray \<Rightarrow> string list \<Rightarrow> panic + SortedStringArray" where
  "Add a vs = (if length vs = 0 then Inr a else Add_loop a vs)"

subsection \<open>Search\<close>

definition Search :: "SortedStringArray \<Rightarrow> string \<Rightarrow> panic + int" where
  "Search a v =
     (case binSearch a v True of
        Inl e \<Rightarrow> Inl e
      | Inr (i, r) \<Rightarrow> if r = 0 then Inr i else Inr (-1))"

subsection \<open>Unique and SetUnique\<close>

function SortedStringArray_Unique_loop ::
  "(string \<Rightarrow> string \<Rightarrow> int) \<Rightarrow> string list \<Rightarrow> int \<Rightarrow> panic + string list" where
  "SortedStringArray_Unique_loop c a i =
     (if i = int (length a) - 1 then Inr a
      else
        (case index a i of
           Inl e \<Rightarrow> Inl e
         | Inr x \<Rightarrow>
             (case index a (i + 1) of
                Inl e \<Rightarrow> Inl e
              | Inr y \<Rightarrow>
                  if c x y = 0 then
                    (case slice a 0 (i + 1) of
                       Inl e \<Rightarrow> Inl e
                     | Inr front \<Rightarrow>
                         (case slice_from a (i + 1 + 1) of
                            Inl e \<Rightarrow> Inl e
                          | Inr rear \<Rightarrow> SortedStringArray_Unique_loop c (front @ rear) i))
                  else SortedStringArray_Unique_loop c a (i + 1))))"
  by pat_completeness auto
termination
  by (relation "measure (\<lambda>(c, a, i). length a - nat i)")
     (auto simp: index_def slice_def slice_from_def split: if_splits)

declare SortedStringArray_Unique_loop.simps [simp del]

definition SortedStringArray_Unique :: "SortedStringArray \<Rightarrow> panic + SortedStringArray" where
  "SortedStringArray_Unique a =
     (case SortedStringArray_Unique_loop (comparator a) (array a) 0 of
        Inl e \<Rightarrow> Inl e
      | Inr a' \<Rightarrow> Inr (a\<lparr>array := a'\<rparr>))"

definition SetUnique :: "SortedStringArray \<Rightarrow> bool \<Rightarrow> panic + SortedStringArray" where
  "SetUnique a u =
     (if u \<and> unique a \<noteq> u then SortedStringArray_Unique (a\<lparr>unique := u\<rparr>) else Inr (a\<lparr>unique := u\<rparr>))"

section \<open>Operations written alike for both containers\<close>

text \<open>
  \<^verbatim>\<open>Range\<close>, \<^verbatim>\<open>SubSlice\<close> and \<^verbatim>\<open>Rands\<close> have the same body in
  \<^verbatim>\<open>garray_normal_int.go\<close> and \<^verbatim>\<open>garray_sorted_string.go\<close>, apart from the element
  type. The body is modelled once, over the zero value \<open>z\<close> of the element type, and
  instantiated for each container.
\<close>

definition garray_Range ::
  "'a \<Rightarrow> ('a, 'b) garray_scheme \<Rightarrow> int \<Rightarrow> int list \<Rightarrow> panic + 'a list" where
  "garray_Range z a start ends =
     (let offsetEnd =
            (case ends of
               [] \<Rightarrow> int (length (array a))
             | e # _ \<Rightarrow> if e < int (length (array a)) then e else int (length (array a)))
      in
        if start > offsetEnd then Inr []
        else
          (let start' = (if start < 0 then 0 else start) in
             if safe a then
               (case make_slice z (offsetEnd - start') of
                  Inl e \<Rightarrow> Inl e
                | Inr arr \<Rightarrow>
                    (case slice (array a) start' offsetEnd of
                       Inl e \<Rightarrow> Inl e
                     | Inr src \<Rightarrow> Inr (copy arr src)))
             else slice (array a) start' offsetEnd))"


text \<open>
  \<^verbatim>\<open>Rands\<close> ranges over \<^verbatim>\<open>grand.Perm(len(a.array))\<close>. The random source belongs to
  package \<^verbatim>\<open>g/util/grand\<close>, so the permutation it returns is the parameter \<open>perm\<close>.
  The loop reads \<^verbatim>\<open>a.array[v]\<close>, stores it in \<^verbatim>\<open>n[i]\<close>, and only then tests
  \<^verbatim>\<open>i == size-1\<close>.
\<close>

fun Rands_loop :: "'a list \<Rightarrow> 'a list \<Rightarrow> int \<Rightarrow> int \<Rightarrow> int list \<Rightarrow> panic + 'a list" where
  "Rands_loop a n sz i [] = Inr n"
| "Rands_loop a n sz i (v # perm) =
     (case index a v of
        Inl e \<Rightarrow> Inl e
      | Inr x \<Rightarrow>
          (case assign n i x of
             Inl e \<Rightarrow> Inl e
           | Inr n' \<Rightarrow> if i = sz - 1 then Inr n' else Rands_loop a n' sz (i + 1) perm))"

definition garray_Rands ::
  "'a \<Rightarrow> ('a, 'b) garray_scheme \<Rightarrow> int \<Rightarrow> int list \<Rightarrow> panic + 'a list" where
  "garray_Rands z a sz perm =
     (let sz' = (if sz > int (length (array a)) then int (length (array a)) else sz) in
        case make_slice z sz' of
          Inl e \<Rightarrow> Inl e
        | Inr n \<Rightarrow> Rands_loop (array a) n sz' 0 perm)"

definition IntArray_Range :: "IntArray \<Rightarrow> int \<Rightarrow> int list \<Rightarrow> panic + int list" where
  "IntArray_Range a start ends = garray_Range 0 a start ends"


definition IntArray_Rands :: "IntArray \<Rightarrow> int \<Rightarrow> int list \<Rightarrow> panic + int list" where
  "IntArray_Rands a sz perm = garray_Rands 0 a sz perm"


definition SortedStringArray_Rands ::
  "SortedStringArray \<Rightarrow> int \<Rightarrow> int list \<Rightarrow> panic + string list" where
  "SortedStringArray_Rands a sz perm = garray_Rands [] a sz perm"

section \<open>The order of the sorted container\<close>

text \<open>
  A sequence is sorted per a comparator when no element compares greater than a later
  one; two neighbours are a duplicate per the comparator when they compare equal.
\<close>

definition sorted_per :: "(string \<Rightarrow> string \<Rightarrow> int) \<Rightarrow> string list \<Rightarrow> bool" where
  "sorted_per c xs = sorted_wrt (\<lambda>x y. c x y \<le> 0) xs"


text \<open>
  What \<^verbatim>\<open>binSearch\<close> reports about a value \<open>v\<close>: an index \<open>i\<close> of the array and the
  comparison \<open>r\<close> of \<open>v\<close> with the element there; when \<open>v\<close> is smaller, every
  element before \<open>i\<close> is smaller than \<open>v\<close>, and when \<open>v\<close> is greater, every
  element after \<open>i\<close> is greater than \<open>v\<close>.
\<close>

definition located :: "string list \<Rightarrow> string \<Rightarrow> int \<Rightarrow> int \<Rightarrow> bool" where
  "located a v i r \<longleftrightarrow>
     0 \<le> i \<and> i < int (length a) \<and> r = strings_Compare v (a ! nat i)
     \<and> (r < 0 \<longrightarrow> (\<forall>k. k < nat i \<longrightarrow> a ! k < v))
     \<and> (0 < r \<longrightarrow> (\<forall>k. nat i < k \<and> k < length a \<longrightarrow> v < a ! k))"


section \<open>The window of SubSlice, in the words of the specification\<close>


section \<open>IntArray\<close>

subsection \<open>Unique\<close>

text \<open>
  The inner loop over \<open>j\<close>: after a removal at \<open>j\<close> the loop's post statement still
  increments \<open>j\<close>.
\<close>

function IntArray_Unique_inner :: "int list \<Rightarrow> int \<Rightarrow> int \<Rightarrow> panic + int list" where
  "IntArray_Unique_inner a i j =
     (if j < int (length a) then
        (case index a i of
           Inl e \<Rightarrow> Inl e
         | Inr x \<Rightarrow>
             (case index a j of
                Inl e \<Rightarrow> Inl e
              | Inr y \<Rightarrow>
                  if x = y then
                    (case slice a 0 j of
                       Inl e \<Rightarrow> Inl e
                     | Inr front \<Rightarrow>
                         (case slice_from a (j + 1) of
                            Inl e \<Rightarrow> Inl e
                          | Inr rear \<Rightarrow> IntArray_Unique_inner (front @ rear) i (j + 1)))
                  else IntArray_Unique_inner a i (j + 1)))
      else Inr a)"
  by pat_completeness auto
termination
  by (relation "measure (\<lambda>(a, i, j). nat (int (length a) - j))")
     (auto simp: index_def slice_def slice_from_def split: if_splits)

declare IntArray_Unique_inner.simps [simp del]

lemma IntArray_Unique_inner_length:
  "IntArray_Unique_inner a i j = Inr a' \<Longrightarrow> length a' \<le> length a"
proof (induction a i j arbitrary: a' rule: IntArray_Unique_inner.induct)
  case (1 a i j)
  show ?case
  proof (cases "j < int (length a)")
    case False
    with "1.prems" show ?thesis
      by (simp add: IntArray_Unique_inner.simps [of a i j])
  next
    case True
    from "1.prems" True obtain x y where
      x: "index a i = Inr x" and y: "index a j = Inr y"
      by (auto simp: IntArray_Unique_inner.simps [of a i j] split: sum.splits)
    show ?thesis
    proof (cases "x = y")
      case False
      with "1.prems" True x y have "IntArray_Unique_inner a i (j + 1) = Inr a'"
        by (simp add: IntArray_Unique_inner.simps [of a i j])
      with "1.IH"(2) [OF True x y False] show ?thesis .
    next
      case eq: True
      from "1.prems" True x y eq obtain front rear where
        f: "slice a 0 j = Inr front" and r: "slice_from a (j + 1) = Inr rear" and
        rec: "IntArray_Unique_inner (front @ rear) i (j + 1) = Inr a'"
        by (auto simp: IntArray_Unique_inner.simps [of a i j] split: sum.splits)
      from "1.IH"(1) [OF True x y eq f r rec] have "length a' \<le> length (front @ rear)" .
      moreover from f r have "length (front @ rear) \<le> length a"
        by (auto simp: slice_def slice_from_def split: if_splits)
      ultimately show ?thesis by simp
    qed
  qed
qed

function IntArray_Unique_loop :: "int list \<Rightarrow> int \<Rightarrow> panic + int list" where
  "IntArray_Unique_loop a i =
     (if i < int (length a) - 1 then
        (case IntArray_Unique_inner a i (i + 1) of
           Inl e \<Rightarrow> Inl e
         | Inr a' \<Rightarrow> IntArray_Unique_loop a' (i + 1))
      else Inr a)"
  by pat_completeness auto
termination
proof (relation "measure (\<lambda>(a, i). nat (int (length a) - i))")
  show "wf (measure (\<lambda>(a, i). nat (int (length a) - i)))"
    by simp
next
  fix a :: "int list" and i :: int and a' :: "int list"
  assume "i < int (length a) - 1" and "IntArray_Unique_inner a i (i + 1) = Inr a'"
  then show "((a', i + 1), (a, i)) \<in> measure (\<lambda>(a, i). nat (int (length a) - i))"
    using IntArray_Unique_inner_length [of a i "i + 1" a'] by simp
qed

declare IntArray_Unique_loop.simps [simp del]

definition IntArray_Unique :: "IntArray \<Rightarrow> panic + IntArray" where
  "IntArray_Unique a =
     (case IntArray_Unique_loop (array a) 0 of
        Inl e \<Rightarrow> Inl e
      | Inr a' \<Rightarrow> Inr (a\<lparr>array := a'\<rparr>))"

subsection \<open>Fill\<close>




subsection \<open>Pad\<close>




section \<open>Faults of the sorted container's Unique and of Rands\<close>

text \<open>
  C9. On an empty \<^verbatim>\<open>SortedStringArray\<close>, \<^verbatim>\<open>Unique\<close> compares \<open>i = 0\<close> with
  \<open>len - 1 = -1\<close>, does not leave the loop, and reads \<^verbatim>\<open>a.array[0]\<close>: an index out of
  range. \<^verbatim>\<open>SetUnique(true)\<close> on an empty container whose flag was off calls \<^verbatim>\<open>Unique\<close>
  and faults in the same way, whatever the other fields of the container are.
\<close>

theorem SortedStringArray_Unique_empty_faults:
  "SortedStringArray_Unique (a\<lparr>array := []\<rparr>) = Inl IndexOutOfRange
   \<and> SetUnique (a\<lparr>array := [], unique := False\<rparr>) True = Inl IndexOutOfRange"
  by (simp add: SortedStringArray_Unique_def SetUnique_def
      SortedStringArray_Unique_loop.simps index_def)

text \<open>
  The first iteration of the loop of \<^verbatim>\<open>Rands\<close> on a buffer of length zero: whatever
  index the permutation starts with, the store into \<^verbatim>\<open>n[0]\<close> is out of range (and so
  is the read before it, if the permutation's entry is no index of the array).
\<close>

lemma Rands_loop_empty_buffer:
  "Rands_loop xs [] 0 0 (v # vs) = Inl IndexOutOfRange"
proof (cases "index xs v")
  case (Inl e)
  then have "e = IndexOutOfRange"
    by (simp add: index_def split: if_splits)
  with Inl show ?thesis by simp
next
  case (Inr x)
  then show ?thesis by (simp add: assign_def)
qed

text \<open>
  C10. On a non-empty container of either kind, \<^verbatim>\<open>Rands(0)\<close> faults with an index out
  of range instead of returning an empty result: \<^verbatim>\<open>grand.Perm(len(a.array))\<close> has as many
  entries as the array, so the loop body runs, and it stores into the empty result
  buffer before it looks at \<^verbatim>\<open>size\<close>.
\<close>

theorem Rands_zero_faults:
  assumes "array a \<noteq> []" and "length p = length (array a)"
    and "array b \<noteq> []" and "length q = length (array b)"
  shows "IntArray_Rands a 0 p = Inl IndexOutOfRange
         \<and> SortedStringArray_Rands b 0 q = Inl IndexOutOfRange"
proof -
  from assms obtain v vs w ws where "p = v # vs" and "q = w # ws"
    by (metis length_0_conv neq_Nil_conv)
  with assms show ?thesis
    by (simp add: IntArray_Rands_def SortedStringArray_Rands_def garray_Rands_def
        make_slice_def Rands_loop_empty_buffer del: Rands_loop.simps)
qed

theorem Rands_zero_faults_witness:
  "array \<lparr>array = [1, 2, 3 :: int], safe = True\<rparr> \<noteq> []
   \<and> length [2, 0, 1 :: int] = length (array \<lparr>array = [1, 2, 3 :: int], safe = True\<rparr>)
   \<and> array \<lparr>array = [''x''], safe = False, unique = False, comparator = strings_Compare\<rparr> \<noteq> []
   \<and> length [0 :: int] =
       length (array \<lparr>array = [''x''], safe = False, unique = False, comparator = strings_Compare\<rparr>)
   \<and> IntArray_Rands \<lparr>array = [1, 2, 3], safe = True\<rparr> 0 [2, 0, 1] = Inl IndexOutOfRange
   \<and> SortedStringArray_Rands
         \<lparr>array = [''x''], safe = False, unique = False, comparator = strings_Compare\<rparr> 0 [0]
       = Inl IndexOutOfRange"
  using Rands_zero_faults [of "\<lparr>array = [1, 2, 3], safe = True\<rparr>" "[2, 0, 1]"
      "\<lparr>array = [''x''], safe = False, unique = False, comparator = strings_Compare\<rparr>" "[0]"]
  by simp

section \<open>IntArray.Unique\<close>

text \<open>
  On the input \<open>[3,1,3,2,1]\<close> of the specification \<^verbatim>\<open>Unique()\<close> yields \<open>[3,1,2]\<close>.
\<close>

lemma IntArray_Unique_example:
  "map_sum id array (IntArray_Unique \<lparr>array = [3, 1, 3, 2, 1], safe = s\<rparr>) = Inr [3, 1, 2]"
  by (simp add: IntArray_Unique_def IntArray_Unique_loop.simps IntArray_Unique_inner.simps
      index_def slice_def slice_from_def)

text \<open>
  C2. \<^verbatim>\<open>Unique()\<close> is to leave no two equal elements. On \<open>[1,1,1]\<close> it leaves
  \<open>[1,1]\<close>: after the element at \<open>j\<close> is removed its successor moves to \<open>j\<close>, and the
  loop's \<^verbatim>\<open>j++\<close> steps over it without comparing it.
\<close>

theorem IntArray_Unique_keeps_duplicate:
  "map_sum id array (IntArray_Unique \<lparr>array = [1, 1, 1], safe = s\<rparr>) = Inr [1, 1]"
  by (simp add: IntArray_Unique_def IntArray_Unique_loop.simps IntArray_Unique_inner.simps
      index_def slice_def slice_from_def)

section \<open>Range\<close>

text \<open>The three calls of the specification on \<open>[10,20,30,40]\<close>.\<close>

lemma IntArray_Range_examples:
  "IntArray_Range \<lparr>array = [10, 20, 30, 40], safe = s\<rparr> 1 [3] = Inr [20, 30]
   \<and> IntArray_Range \<lparr>array = [10, 20, 30, 40], safe = s\<rparr> 1 [] = Inr [20, 30, 40]
   \<and> IntArray_Range \<lparr>array = [10, 20, 30, 40], safe = s\<rparr> 5 [] = Inr []"
  by (simp add: IntArray_Range_def garray_Range_def make_slice_def slice_def copy_def)

text \<open>
  C4. \<^verbatim>\<open>Range(-3, -1)\<close> on \<open>[10,20,30,40]\<close>: the interval
  \<open>[max(start,0), min(end,length))\<close> is \<open>[0, -1)\<close>, which is empty, but the code compares
  \<open>start\<close> with the effective end before it raises a negative \<open>start\<close> to 0, so the
  guard does not fire and the slice \<open>[0:-1]\<close> is taken: a fault in the copying mode (the
  length of the copy is negative) and in the aliasing mode (the bounds of the slice).
\<close>

theorem IntArray_Range_negative_end_faults:
  "IntArray_Range \<lparr>array = [10, 20, 30, 40], safe = True\<rparr> (-3) [-1]
     = Inl MakesliceLenOutOfRange
   \<and> IntArray_Range \<lparr>array = [10, 20, 30, 40], safe = False\<rparr> (-3) [-1]
     = Inl SliceBoundsOutOfRange"
  by (simp add: IntArray_Range_def garray_Range_def make_slice_def slice_def)

section \<open>Pad\<close>






section \<open>Fill\<close>







section \<open>SubSlice\<close>











section \<open>Binary search on a sorted array\<close>

lemma strings_Compare_sign:
  "strings_Compare v x < 0 \<longleftrightarrow> v < x"
  "strings_Compare v x = 0 \<longleftrightarrow> v = x"
  "0 < strings_Compare v x \<longleftrightarrow> x < v"
  "strings_Compare v x \<le> 0 \<longleftrightarrow> v \<le> x"
  by (auto simp: strings_Compare_def)

lemma sorted_per_strings_Compare: "sorted_per strings_Compare xs = sorted xs"
  by (simp add: sorted_per_def strings_Compare_sign)

lemma sdiv_2_nonneg: "0 \<le> x \<Longrightarrow> x sdiv 2 = x div 2" for x :: int
  by (simp add: signed_divide_int_def sgn_if)

text \<open>
  The loop of \<^verbatim>\<open>binSearch\<close>. Its invariant: every element below \<open>mn\<close> is smaller than
  \<open>v\<close>, every element above \<open>mx\<close> is greater, and once the interval is empty the last
  compared index is the end of the interval that moved last.
\<close>

lemma binSearch_loop_located:
  assumes "c = strings_Compare" and "sorted a" and "0 \<le> mn" and "mx < int (length a)" and "mn \<le> mx + 1"
    and "\<forall>k. k < nat mn \<longrightarrow> a ! k < v"
    and "\<forall>k. nat (mx + 1) \<le> k \<and> k < length a \<longrightarrow> v < a ! k"
    and "mx < mn \<longrightarrow> 0 \<le> mid \<and> mid < int (length a) \<and> cmp = strings_Compare v (a ! nat mid)
           \<and> cmp \<noteq> 0 \<and> (cmp < 0 \<longrightarrow> mid = mn) \<and> (0 < cmp \<longrightarrow> mid = mx)"
  shows "\<exists>i r. binSearch_loop c a v mn mx mid cmp = Inr (i, r) \<and> located a v i r"
  using assms
proof (induction c a v mn mx mid cmp rule: binSearch_loop.induct)
  case (1 c a v mn mx mid cmp)
  note c = \<open>c = strings_Compare\<close>
  note srt = \<open>sorted a\<close>
  show ?case
  proof (cases "mn \<le> mx")
    case False
    then have "mx < mn" by simp
    with "1.prems"(8) have cm: "cmp = strings_Compare v (a ! nat mid)"
      and rng: "0 \<le> mid" "mid < int (length a)"
      and ends: "cmp < 0 \<longrightarrow> mid = mn" "0 < cmp \<longrightarrow> mid = mx"
      by blast+
    have "located a v mid cmp"
      unfolding located_def
    proof (intro conjI impI allI)
      show "0 \<le> mid" "mid < int (length a)" "cmp = strings_Compare v (a ! nat mid)"
        using rng cm by blast+
    next
      fix k assume "cmp < 0" "k < nat mid"
      with ends have "k < nat mn" by simp
      with "1.prems"(6) show "a ! k < v" by blast
    next
      fix k assume "0 < cmp" and k: "nat mid < k \<and> k < length a"
      with ends have "mid = mx" by simp
      with k rng have "nat (mx + 1) \<le> k \<and> k < length a" by (simp add: nat_add_distrib)
      with "1.prems"(7) show "v < a ! k" by blast
    qed
    moreover from False have
      "binSearch_loop c a v mn mx mid cmp = Inr (mid, cmp)"
      by (subst binSearch_loop.simps) simp
    ultimately show ?thesis by simp
  next
    case True
    define m where "m = (mn + mx) sdiv 2"
    from True "1.prems"(3) have "m = (mn + mx) div 2"
      by (simp add: m_def sdiv_2_nonneg)
    with True "1.prems"(3,4) have m: "mn \<le> m" "m \<le> mx" "0 \<le> m" "m < int (length a)"
      by auto
    let ?x = "a ! nat m"
    from m have ix: "index a m = Inr ?x"
      by (simp add: index_def)
    have unfold: "binSearch_loop c a v mn mx mid cmp =
        (if strings_Compare v ?x < 0
         then binSearch_loop c a v mn (m - 1) m (c v ?x)
         else if 0 < strings_Compare v ?x
         then binSearch_loop c a v (m + 1) mx m (c v ?x)
         else Inr (m, strings_Compare v ?x))"
      using True ix unfolding m_def c
      by (subst binSearch_loop.simps) simp
    consider (lt) "strings_Compare v ?x < 0" | (gt) "0 < strings_Compare v ?x"
      | (eq) "strings_Compare v ?x = 0"
      by linarith
    then show ?thesis
    proof cases
      case eq
      with m have "located a v m (strings_Compare v ?x)"
        by (simp add: located_def)
      with eq unfold show ?thesis by simp
    next
      case lt
      then have vx: "v < ?x" by (simp add: strings_Compare_sign)
      have up: "\<forall>k. nat (m - 1 + 1) \<le> k \<and> k < length a \<longrightarrow> v < a ! k"
      proof (intro allI impI)
        fix k assume "nat (m - 1 + 1) \<le> k \<and> k < length a"
        then have "nat m \<le> k" "k < length a" by simp_all
        with srt have "?x \<le> a ! k"
          by (intro sorted_nth_mono)
        with vx show "v < a ! k" by simp
      qed
      from lt have lt': "c v ?x < 0" by (simp add: c)
      have last: "m - 1 < mn \<longrightarrow> 0 \<le> m \<and> m < int (length a)
           \<and> c v ?x = strings_Compare v (a ! nat m)
           \<and> c v ?x \<noteq> 0 \<and> (c v ?x < 0 \<longrightarrow> m = mn)
           \<and> (0 < c v ?x \<longrightarrow> m = m - 1)"
        using m lt' by (intro impI conjI) (simp_all add: c)
      from m have b: "m - 1 < int (length a)" "mn \<le> m - 1 + 1" by simp_all
      have "\<exists>i r. binSearch_loop c a v mn (m - 1) m (c v ?x) = Inr (i, r)
                \<and> located a v i r"
        by (rule "1.IH"(1) [folded m_def, OF True ix lt' c srt "1.prems"(3) b "1.prems"(6) up last])
      with lt unfold show ?thesis by simp
    next
      case gt
      then have vx: "?x < v" by (simp add: strings_Compare_sign)
      have low: "\<forall>k. k < nat (m + 1) \<longrightarrow> a ! k < v"
      proof (intro allI impI)
        fix k assume "k < nat (m + 1)"
        with m have "k \<le> nat m" "nat m < length a" by auto
        with srt have "a ! k \<le> ?x"
          by (intro sorted_nth_mono)
        with vx show "a ! k < v" by simp
      qed
      from gt have ng': "\<not> c v ?x < 0" and gt': "0 < c v ?x" by (simp_all add: c)
      have last: "mx < m + 1 \<longrightarrow> 0 \<le> m \<and> m < int (length a)
           \<and> c v ?x = strings_Compare v (a ! nat m)
           \<and> c v ?x \<noteq> 0 \<and> (c v ?x < 0 \<longrightarrow> m = m + 1)
           \<and> (0 < c v ?x \<longrightarrow> m = mx)"
        using m gt' by (intro impI conjI) (simp_all add: c)
      from m have b: "0 \<le> m + 1" "m + 1 \<le> mx + 1" by simp_all
      have "\<exists>i r. binSearch_loop c a v (m + 1) mx m (c v ?x) = Inr (i, r)
                \<and> located a v i r"
        by (rule "1.IH"(2) [folded m_def, OF True ix ng' gt' c srt b(1) "1.prems"(4) b(2) low
              "1.prems"(7) last])
      with gt unfold show ?thesis by simp
    qed
  qed
qed

lemma binSearch_empty: "array a = [] \<Longrightarrow> binSearch a v lock = Inr (-1, -2)"
  by (simp add: binSearch_def)

lemma binSearch_located:
  assumes "sorted (array a)" and "comparator a = strings_Compare" and "array a \<noteq> []"
  shows "\<exists>i r. binSearch a v lock = Inr (i, r) \<and> located (array a) v i r"
proof -
  from assms(3) have "0 < length (array a)" by simp
  then have
    "\<exists>i r. binSearch_loop strings_Compare (array a) v 0 (int (length (array a)) - 1) 0 (-2)
             = Inr (i, r) \<and> located (array a) v i r"
    using assms(1) by (intro binSearch_loop_located) auto
  with assms show ?thesis
    by (simp add: binSearch_def)
qed

text \<open>What the located index says about membership.\<close>

lemma located_member:
  assumes "sorted a" and "located a v i r"
  shows "r = 0 \<longleftrightarrow> v \<in> set a" and "r = 0 \<Longrightarrow> a ! nat i = v"
proof -
  from assms(2) have i: "nat i < length a" and r: "r = strings_Compare v (a ! nat i)"
    by (auto simp: located_def)
  show "r = 0 \<Longrightarrow> a ! nat i = v"
    using r by (simp add: strings_Compare_sign)
  show "r = 0 \<longleftrightarrow> v \<in> set a"
  proof
    assume "r = 0"
    with r i show "v \<in> set a"
      by (auto simp: strings_Compare_sign)
  next
    assume "v \<in> set a"
    then obtain k where k: "k < length a" "a ! k = v"
      by (auto simp: in_set_conv_nth)
    show "r = 0"
    proof (rule ccontr)
      assume "r \<noteq> 0"
      then consider (lt) "r < 0" | (gt) "0 < r" by linarith
      then show False
      proof cases
        case lt
        with r have vlt: "v < a ! nat i" by (simp add: strings_Compare_sign)
        from lt assms(2) have below: "\<forall>j. j < nat i \<longrightarrow> a ! j < v"
          by (simp add: located_def)
        show False
        proof (cases "k < nat i")
          case True
          with below k show False by auto
        next
          case False
          then have "nat i \<le> k" by simp
          with assms(1) k have "a ! nat i \<le> a ! k"
            by (intro sorted_nth_mono)
          with vlt k show False by simp
        qed
      next
        case gt
        with r have vgt: "a ! nat i < v" by (simp add: strings_Compare_sign)
        from gt assms(2) have above: "\<forall>j. nat i < j \<and> j < length a \<longrightarrow> v < a ! j"
          by (simp add: located_def)
        show False
        proof (cases "nat i < k")
          case True
          with above k show False by auto
        next
          case False
          then have "k \<le> nat i" by simp
          with assms(1) i have "a ! k \<le> a ! nat i"
            by (intro sorted_nth_mono)
          with vgt k show False by simp
        qed
      qed
    qed
  qed
qed


section \<open>Add on a sorted array\<close>










text \<open>
  The constructors establish what the theorems about the sorted container assume: the
  comparator is \<^verbatim>\<open>strings.Compare\<close> and the array is sorted per it.
\<close>

lemma NewSortedStringArrayFrom_sorted:
  "comparator (NewSortedStringArrayFrom xs u) = strings_Compare
   \<and> sorted_per (comparator (NewSortedStringArrayFrom xs u))
        (array (NewSortedStringArrayFrom xs u))
   \<and> \<not> unique (NewSortedStringArrayFrom xs u)"
  by (simp add: NewSortedStringArrayFrom_def NewSortedStringArraySize_def
      sorted_per_strings_Compare)

text \<open>An \<^verbatim>\<open>Add\<close> call and a \<^verbatim>\<open>Search\<close> evaluated on \<open>["b","d"]\<close>.\<close>

lemma Add_example:
  "Add \<lparr>array = [''b'', ''d''], safe = True, unique = False, comparator = strings_Compare\<rparr> [''c'', ''a'', ''c'']
     = Inr \<lparr>array = [''a'', ''b'', ''c'', ''c'', ''d''], safe = True, unique = False,
            comparator = strings_Compare\<rparr>"
  by (simp add: Add_def Add_step_def binSearch_def binSearch_loop.simps index_def
      strings_Compare_def slice_def slice_from_def signed_divide_int_def)

lemma Search_example:
  "Search \<lparr>array = [''b'', ''d''], safe = True, unique = False, comparator = strings_Compare\<rparr> ''d'' = Inr 1
   \<and> Search \<lparr>array = [''b'', ''d''], safe = True, unique = False, comparator = strings_Compare\<rparr> ''c'' = Inr (-1)"
  by (simp add: Search_def binSearch_def binSearch_loop.simps index_def
      strings_Compare_def signed_divide_int_def)



section \<open>Search\<close>

lemma Search_result:
  assumes "sorted (array a)" and "comparator a = strings_Compare"
  shows "(v \<in> set (array a) \<longrightarrow>
            (\<exists>i. Search a v = Inr i \<and> 0 \<le> i \<and> i < int (length (array a))
                 \<and> index (array a) i = Inr v))
         \<and> (v \<notin> set (array a) \<longrightarrow> Search a v = Inr (-1))"
proof (cases "array a = []")
  case True
  then show ?thesis by (simp add: Search_def binSearch_empty)
next
  case False
  with assms obtain i r where bs: "binSearch a v True = Inr (i, r)"
    and loc: "located (array a) v i r"
    using binSearch_located [of a v True] by blast
  from loc have i: "0 \<le> i" "i < int (length (array a))"
    by (simp_all add: located_def)
  note mem = located_member [OF assms(1) loc]
  show ?thesis
  proof (cases "r = 0")
    case True
    with mem have "v \<in> set (array a)" "array a ! nat i = v" by simp_all
    with True bs i show ?thesis
      by (simp add: Search_def index_def)
  next
    case False
    with mem have "v \<notin> set (array a)" by simp
    with False bs show ?thesis
      by (simp add: Search_def)
  qed
qed

text \<open>
  C6. For every sorted string container whose array is sorted per its comparator,
  \<^verbatim>\<open>Search(v)\<close> returns an index of the array at which \<open>v\<close> stands when \<open>v\<close> is an
  element, and \<open>-1\<close> when it is not (so a result other than \<open>-1\<close> is returned exactly
  for the values present). On an empty container \<^verbatim>\<open>binSearch\<close> returns the pair
  \<open>(-1, -2)\<close> without reading the array, and \<^verbatim>\<open>Search\<close> returns \<open>-1\<close>.
\<close>

theorem Search_finds_iff_present:
  assumes "comparator a = strings_Compare" and "sorted_per (comparator a) (array a)"
  shows "(v \<in> set (array a) \<longrightarrow>
            (\<exists>i. Search a v = Inr i \<and> 0 \<le> i \<and> i < int (length (array a))
                 \<and> index (array a) i = Inr v))
         \<and> (v \<notin> set (array a) \<longrightarrow> Search a v = Inr (-1))
         \<and> binSearch (a\<lparr>array := []\<rparr>) v lock = Inr (-1, -2)
         \<and> Search (a\<lparr>array := []\<rparr>) v = Inr (-1)"
proof -
  from assms have "sorted (array a)"
    by (simp add: sorted_per_strings_Compare)
  from Search_result [OF this assms(1), of v] show ?thesis
    by (simp add: Search_def binSearch_empty)
qed

theorem Search_finds_iff_present_witness:
  "comparator \<lparr>array = [''b'', ''d''], safe = True, unique = False, comparator = strings_Compare\<rparr> = strings_Compare
   \<and> sorted_per (comparator \<lparr>array = [''b'', ''d''], safe = True, unique = False, comparator = strings_Compare\<rparr>)
        (array \<lparr>array = [''b'', ''d''], safe = True, unique = False, comparator = strings_Compare\<rparr>)
   \<and> ''d'' \<in> set (array \<lparr>array = [''b'', ''d''], safe = True, unique = False, comparator = strings_Compare\<rparr>)
   \<and> (\<exists>i. Search \<lparr>array = [''b'', ''d''], safe = True, unique = False, comparator = strings_Compare\<rparr> ''d'' = Inr i
          \<and> index [''b'', ''d''] i = Inr ''d'')"
  using Search_finds_iff_present [of "\<lparr>array = [''b'', ''d''], safe = True, unique = False, comparator = strings_Compare\<rparr>" "''d''" True]
  by (auto simp: sorted_per_def strings_Compare_def)

section \<open>Add under the uniqueness flag\<close>








end
